theory Spec2Isabelle
  imports Complex_Main "HOL-Library.AList"
begin

section \<open>Python values\<close>

text \<open>
  The dispatch engine is dynamically typed: a phone, a message or an \<open>additional_data\<close>
  argument may be \<open>None\<close>, a string, an integer or a dictionary. A dictionary is an
  association list in insertion order with string keys. A string is a list of code points;
  Isabelle's \<open>char\<close> covers the code points below 256, and the character classes below are
  Python's \<open>str.isspace\<close> and \<open>str.isdigit\<close> on that range.
\<close>

datatype pyval = PNone | PStr string | PInt int | PDict "(string \<times> pyval) list"

datatype error = TypeError | ValueError

fun truthy :: "pyval \<Rightarrow> bool" where
  "truthy PNone = False"
| "truthy (PStr s) = (s \<noteq> [])"
| "truthy (PInt i) = (i \<noteq> 0)"
| "truthy (PDict d) = (d \<noteq> [])"

fun hashable :: "pyval \<Rightarrow> bool" where
  "hashable (PDict d) = False"
| "hashable v = True"

definition isspace :: "char \<Rightarrow> bool" where
  "isspace c = (let n = (of_char c :: nat) in
     (9 \<le> n \<and> n \<le> 13) \<or> (28 \<le> n \<and> n \<le> 32) \<or> n = 133 \<or> n = 160)"

definition isdigit_char :: "char \<Rightarrow> bool" where
  "isdigit_char c = (let n = (of_char c :: nat) in
     (48 \<le> n \<and> n \<le> 57) \<or> n = 178 \<or> n = 179 \<or> n = 185)"

definition isdigit :: "string \<Rightarrow> bool" where
  "isdigit s = (s \<noteq> [] \<and> list_all isdigit_char s)"

definition strip :: "string \<Rightarrow> string" where
  "strip s = rev (dropWhile isspace (rev (dropWhile isspace s)))"

definition replace :: "char \<Rightarrow> string \<Rightarrow> string \<Rightarrow> string" where
  "replace old new s = concat (map (\<lambda>c. if c = old then new else [c]) s)"

definition startswith :: "string \<Rightarrow> string \<Rightarrow> bool" where
  "startswith s p = (take (length p) s = p)"

fun contains :: "string \<Rightarrow> string \<Rightarrow> bool" where
  "contains sub [] = (sub = [])"
| "contains sub (c # cs) = (startswith (c # cs) sub \<or> contains sub cs)"

text \<open>\<open>re.sub(r'\s+', ' ', message)\<close>: every maximal run of whitespace becomes one space.\<close>

function re_sub_ws :: "string \<Rightarrow> string" where
  "re_sub_ws [] = []"
| "re_sub_ws (c # cs) =
     (if isspace c then CHR '' '' # re_sub_ws (dropWhile isspace cs) else c # re_sub_ws cs)"
  by pat_completeness auto
termination
  by (relation "measure length") (auto simp: le_imp_less_Suc length_dropWhile_le)

section \<open>Validator\<close>

definition validate_phone :: "pyval \<Rightarrow> bool" where
  "validate_phone phone =
     (case phone of
        PStr s \<Rightarrow>
          if s = [] then False
          else
            (let phone_clean = replace CHR '' '' [] (strip s);
                 phone_clean = (if startswith phone_clean ''+'' then drop 1 phone_clean
                                else phone_clean)
             in 9 \<le> length phone_clean \<and> isdigit phone_clean)
      | _ \<Rightarrow> False)"

definition validate_message :: "pyval \<Rightarrow> string" where
  "validate_message message =
     (case message of
        PStr s \<Rightarrow>
          if s = [] then []
          else
            (let message = strip s;
                 message = re_sub_ws message;
                 message = (if 300 < length message then take 297 message @ ''...''
                            else message)
             in replace (CHR 0x09) '' ''
                  (replace (CHR 0x0D) '' '' (replace (CHR 0x0A) '' '' message)))
      | _ \<Rightarrow> [])"

definition normalize_ethiopian_phone :: "string \<Rightarrow> string option" where
  "normalize_ethiopian_phone phone =
     (let phone_clean = replace CHR ''-'' [] (replace CHR '' '' [] (strip phone));
          phone_clean = (if startswith phone_clean ''+'' then drop 1 phone_clean
                         else phone_clean);
          verify = (\<lambda>p. if startswith p ''2519'' \<and> length p = 12 then Some p else None)
      in if startswith phone_clean ''251'' then verify phone_clean
         else if startswith phone_clean ''0'' then verify (''251'' @ drop 1 phone_clean)
         else if startswith phone_clean ''9'' \<and> length phone_clean = 9
           then verify (''251'' @ phone_clean)
         else None)"

section \<open>Configuration, transport and trace\<close>

text \<open>
  The module constants \<open>SAVING_API_URL\<close>, \<open>SMS_API_KEY\<close> and \<open>SMS_RETRY_ATTEMPTS\<close> are
  read once from the settings. What one call observes from outside is its \<open>world\<close>: the
  result of the k-th \<open>asyncio.wait_for(make_rest_request(...))\<close> (a response, \<open>None\<close>, or
  an exception such as the timeout), and the clock and random digits read by
  \<open>_generate_reference\<close>. A response carries whether \<open>response.json()\<close> returns.
  Every call yields its return value and the trace of what it did.
\<close>

record config =
  SAVING_API_URL :: "string option"
  SMS_API_KEY :: "string option"
  SMS_RETRY_ATTEMPTS :: nat

record response =
  status_code :: int
  body_text :: string
  json_parses :: bool

datatype attempt_result = Returned "response option" | Raised

record world =
  transport :: "nat \<Rightarrow> attempt_result"
  timestamp :: string
  random_suffix :: string

datatype level = INFO | WARNING | ERROR

datatype event = Post "string option" pyval | Sleep nat | Log level string

definition configured :: "string option \<Rightarrow> bool" where
  "configured v = (case v of None \<Rightarrow> False | Some s \<Rightarrow> s \<noteq> [])"

definition generate_reference :: "world \<Rightarrow> string \<Rightarrow> string" where
  "generate_reference w prefix = prefix @ ''_'' @ timestamp w @ ''_'' @ random_suffix w"

definition backoff :: "config \<Rightarrow> nat \<Rightarrow> event list" where
  "backoff cfg attempt =
     (if int attempt < int (SMS_RETRY_ATTEMPTS cfg) - 1 then [Sleep (min (2 ^ attempt) 10)]
      else [])"

section \<open>Delivery engine\<close>

text \<open>One attempt of \<open>send_sms\<close>: \<open>None\<close> when it succeeded, else the line it logs.\<close>

definition sms_attempt :: "attempt_result \<Rightarrow> event option" where
  "sms_attempt r =
     (case r of
        Returned (Some resp) \<Rightarrow>
          if status_code resp = 200 then None else Some (Log WARNING ''SMS attempt failed'')
      | Returned None \<Rightarrow> Some (Log WARNING ''SMS attempt failed'')
      | Raised \<Rightarrow> Some (Log ERROR ''SMS attempt error''))"

fun send_sms_loop :: "config \<Rightarrow> world \<Rightarrow> string option \<Rightarrow> pyval \<Rightarrow> nat list \<Rightarrow> bool \<times> event list" where
  "send_sms_loop cfg w sms_url sms_data [] = (False, [Log ERROR ''All SMS attempts failed''])"
| "send_sms_loop cfg w sms_url sms_data (attempt # rest) =
     (case sms_attempt (transport w attempt) of
        None \<Rightarrow> (True, [Post sms_url sms_data, Log INFO ''SMS sent successfully''])
      | Some failure \<Rightarrow>
          (let (ok, evs) = send_sms_loop cfg w sms_url sms_data rest
           in (ok, [Post sms_url sms_data, failure] @ backoff cfg attempt @ evs)))"

definition send_sms :: "config \<Rightarrow> world \<Rightarrow> string \<Rightarrow> (string \<times> pyval) list \<Rightarrow> pyval \<Rightarrow> bool \<times> event list" where
  "send_sms cfg w reference payload phone =
     (if \<not> configured (SAVING_API_URL cfg)
        then (False, [Log ERROR ''SMS config error: SAVING_API_URL not configured''])
      else if truthy phone \<and> \<not> validate_phone phone
        then (False, [Log WARNING ''SMS validation error: invalid phone format''])
      else
        (let sms_url = Some (the (SAVING_API_URL cfg) @ ''/send_sms'');
             sms_data = PDict [(''reference'', PStr reference), (''payload'', PDict payload)];
             (ok, evs) = send_sms_loop cfg w sms_url sms_data [0 ..< SMS_RETRY_ATTEMPTS cfg]
         in (ok, Log INFO ''Sending SMS'' # evs)))"

text \<open>
  \<open>_send_geezsms\<close> calls \<open>phone.strip()\<close> inside its outer \<open>try\<close>: a phone that is
  no string raises there and the call returns false. On a 200 response with a non-empty body the body is
  parsed for the log line inside the \<open>try\<close> of the attempt, so a body that is not JSON
  raises there and the attempt is handled as a failed one.
\<close>

definition geezsms_attempt :: "attempt_result \<Rightarrow> event option" where
  "geezsms_attempt r =
     (case r of
        Returned (Some resp) \<Rightarrow>
          if status_code resp = 200
            then (if body_text resp \<noteq> [] \<and> \<not> json_parses resp
                    then Some (Log ERROR ''GeezSMS attempt error'')
                  else None)
          else Some (Log WARNING ''GeezSMS attempt failed'')
      | Returned None \<Rightarrow> Some (Log WARNING ''GeezSMS attempt failed'')
      | Raised \<Rightarrow> Some (Log ERROR ''GeezSMS attempt error''))"

fun send_geezsms_loop :: "config \<Rightarrow> world \<Rightarrow> pyval \<Rightarrow> nat list \<Rightarrow> bool \<times> event list" where
  "send_geezsms_loop cfg w sms_data [] = (False, [Log ERROR ''All GeezSMS attempts failed''])"
| "send_geezsms_loop cfg w sms_data (attempt # rest) =
     (case geezsms_attempt (transport w attempt) of
        None \<Rightarrow> (True, [Post (SAVING_API_URL cfg) sms_data, Log INFO ''GeezSMS sent successfully''])
      | Some failure \<Rightarrow>
          (let (ok, evs) = send_geezsms_loop cfg w sms_data rest
           in (ok, [Post (SAVING_API_URL cfg) sms_data, failure] @ backoff cfg attempt @ evs)))"

definition send_geezsms :: "config \<Rightarrow> world \<Rightarrow> pyval \<Rightarrow> string \<Rightarrow> bool \<times> event list" where
  "send_geezsms cfg w phone message =
     (if \<not> configured (SMS_API_KEY cfg)
        then (False, [Log ERROR ''GeezSMS: SMS_API_KEY not configured''])
      else
        (case phone of
           PStr p \<Rightarrow>
             (case normalize_ethiopian_phone p of
                None \<Rightarrow> (False, [Log ERROR ''GeezSMS: Failed to normalize phone''])
              | Some normalized_phone \<Rightarrow>
                  (let sms_data = PDict [(''token'', PStr (the (SMS_API_KEY cfg))),
                                          (''phone'', PStr normalized_phone),
                                          (''msg'', PStr message)];
                       (ok, evs) = send_geezsms_loop cfg w sms_data [0 ..< SMS_RETRY_ATTEMPTS cfg]
                   in (ok, Log INFO ''Sending GeezSMS'' # evs)))
         | _ \<Rightarrow> (False, [Log ERROR ''GeezSMS service error''])))"

section \<open>Generic and utility operations\<close>

text \<open>\<open>payload.update(additional_data)\<close>; a non-empty string or an integer is no mapping.\<close>

definition dict_update :: "(string \<times> pyval) list \<Rightarrow> pyval \<Rightarrow> error + (string \<times> pyval) list" where
  "dict_update payload other =
     (case other of
        PDict d \<Rightarrow> Inr (fold (\<lambda>(k, v). AList.update k v) d payload)
      | PStr s \<Rightarrow> (if s = [] then Inr payload else Inl ValueError)
      | PInt i \<Rightarrow> Inl TypeError
      | PNone \<Rightarrow> Inl TypeError)"

definition send_custom_sms :: "config \<Rightarrow> world \<Rightarrow> pyval \<Rightarrow> pyval \<Rightarrow> pyval \<Rightarrow> pyval \<Rightarrow> (error + bool) \<times> event list" where
  "send_custom_sms cfg w phone message message_type additional_data =
     (if \<not> validate_phone phone
        then (Inr False, [Log WARNING ''Custom SMS: Invalid phone''])
      else
        (let clean_message = validate_message message
         in if clean_message = []
              then (Inr False, [Log WARNING ''Custom SMS: Empty or invalid message''])
            else if configured (SAVING_API_URL cfg)
                    \<and> contains ''geezsms.com'' (the (SAVING_API_URL cfg))
              then (let (ok, evs) = send_geezsms cfg w phone clean_message in (Inr ok, evs))
            else
              (let reference = generate_reference w ''CUSTOM'';
                   payload = [(''phone'', phone), (''message'', PStr clean_message),
                              (''type'', message_type)]
               in case (if truthy additional_data then dict_update payload additional_data
                        else Inr payload) of
                    Inl e \<Rightarrow> (Inl e, [])
                  | Inr payload \<Rightarrow>
                      (let (ok, evs) = send_sms cfg w reference payload phone
                       in (Inr ok, evs)))))"

text \<open>
  \<open>send_notification_sms\<close> evaluates \<open>phone[:4]\<close> for its warning when the cleaned
  message is empty; only a string can be sliced.
\<close>

definition send_notification_sms :: "config \<Rightarrow> world \<Rightarrow> pyval \<Rightarrow> pyval \<Rightarrow> (error + bool) \<times> event list" where
  "send_notification_sms cfg w phone message =
     (let clean_message = validate_message message
      in if clean_message = []
           then (case phone of
                   PStr p \<Rightarrow> (Inr False, [Log WARNING ''SMS: Empty or invalid message''])
                 | _ \<Rightarrow> (Inl TypeError, []))
         else send_custom_sms cfg w phone (PStr clean_message) (PStr ''notification'') PNone)"


section \<open>Batch operation\<close>

text \<open>
  \<open>send_multiple_sms\<close>: the first loop writes \<open>False\<close> for the entries it rejects and
  collects a task for each other entry; \<open>asyncio.gather(..., return_exceptions=True)\<close> runs
  the tasks, the task at position \<open>i\<close> of the input in its own world \<open>ws i\<close>; the second
  loop writes each task's result. A dictionary cannot be a key of \<open>results\<close>. The
  call returns the result map and the traces of the tasks it ran.
\<close>

definition dict_get :: "(string \<times> pyval) list \<Rightarrow> string \<Rightarrow> pyval \<Rightarrow> pyval" where
  "dict_get d k dflt = (case map_of d k of None \<Rightarrow> dflt | Some v \<Rightarrow> v)"

definition setitem :: "(pyval \<times> bool) list \<Rightarrow> pyval \<Rightarrow> bool \<Rightarrow> error + (pyval \<times> bool) list" where
  "setitem results key v =
     (if hashable key then Inr (AList.update key v results) else Inl TypeError)"

type_synonym task = "pyval \<times> nat \<times> pyval \<times> pyval \<times> pyval"

fun collect_requests :: "nat \<Rightarrow> (string \<times> pyval) list list \<Rightarrow> (pyval \<times> bool) list \<Rightarrow> task list
    \<Rightarrow> error + ((pyval \<times> bool) list \<times> task list)" where
  "collect_requests i [] results tasks = Inr (results, tasks)"
| "collect_requests i (sms_request # rest) results tasks =
     (let phone = dict_get sms_request ''phone'' PNone;
          message = dict_get sms_request ''message'' PNone;
          message_type = dict_get sms_request ''type'' (PStr ''notification'');
          additional_data = dict_get sms_request ''additional_data'' PNone
      in if truthy phone \<and> truthy message
           then collect_requests (Suc i) rest results
                  (tasks @ [(phone, i, message, message_type, additional_data)])
         else
           (case setitem results (if truthy phone then phone else PStr ''invalid'') False of
              Inl e \<Rightarrow> Inl e
            | Inr results' \<Rightarrow> collect_requests (Suc i) rest results' tasks))"

definition run_task :: "config \<Rightarrow> (nat \<Rightarrow> world) \<Rightarrow> task \<Rightarrow> (error + bool) \<times> event list" where
  "run_task cfg ws t =
     (case t of (phone, i, message, message_type, additional_data) \<Rightarrow>
        send_custom_sms cfg (ws i) phone message message_type additional_data)"

fun store_results :: "(task \<times> (error + bool)) list \<Rightarrow> (pyval \<times> bool) list
    \<Rightarrow> error + (pyval \<times> bool) list" where
  "store_results [] results = Inr results"
| "store_results ((t, result) # rest) results =
     (case setitem results (fst t) (case result of Inl e \<Rightarrow> False | Inr b \<Rightarrow> b) of
        Inl e \<Rightarrow> Inl e
      | Inr results' \<Rightarrow> store_results rest results')"

definition send_multiple_sms :: "config \<Rightarrow> (nat \<Rightarrow> world) \<Rightarrow> (string \<times> pyval) list list
    \<Rightarrow> (error + (pyval \<times> bool) list) \<times> event list list" where
  "send_multiple_sms cfg ws sms_requests =
     (case collect_requests 0 sms_requests [] [] of
        Inl e \<Rightarrow> (Inl e, [])
      | Inr (results, tasks) \<Rightarrow>
          (let task_results = map (run_task cfg ws) tasks
           in (store_results (zip tasks (map fst task_results)) results,
               map snd task_results)))"

section \<open>Predicates used in the proofs\<close>

text \<open>
  A sanitized message is \<open>normal\<close>: it has no whitespace at either end, its only
  whitespace characters are single spaces between other characters, and it has at most
  300 characters.
\<close>

definition trimmed :: "string \<Rightarrow> bool" where
  "trimmed s = (s = [] \<or> (\<not> isspace (hd s) \<and> \<not> isspace (last s)))"

fun single_spaced :: "string \<Rightarrow> bool" where
  "single_spaced [] = True"
| "single_spaced (c # cs) =
     ((isspace c \<longrightarrow> c = CHR '' '' \<and> (cs = [] \<or> \<not> isspace (hd cs))) \<and> single_spaced cs)"

definition normal :: "string \<Rightarrow> bool" where
  "normal s = (single_spaced s \<and> trimmed s \<and> length s \<le> 300)"


section \<open>Reading a trace\<close>

text \<open>The requests a call posted, as (URL, JSON body), and the backoff sleeps it made.\<close>

fun posts :: "event list \<Rightarrow> (string option \<times> pyval) list" where
  "posts [] = []"
| "posts (Post url body # evs) = (url, body) # posts evs"
| "posts (Sleep n # evs) = posts evs"
| "posts (Log l m # evs) = posts evs"

fun sleeps :: "event list \<Rightarrow> nat list" where
  "sleeps [] = []"
| "sleeps (Sleep n # evs) = n # sleeps evs"
| "sleeps (Post url body # evs) = sleeps evs"
| "sleeps (Log l m # evs) = sleeps evs"

text \<open>
  The payload \<open>send_custom_sms\<close> builds on the generic path when \<open>additional_data\<close> is
  the non-empty dictionary \<open>d\<close>: the three built fields, then \<open>payload.update(d)\<close>.
\<close>

definition custom_payload :: "pyval \<Rightarrow> string \<Rightarrow> pyval \<Rightarrow> (string \<times> pyval) list
    \<Rightarrow> (string \<times> pyval) list" where
  "custom_payload phone clean_message message_type d =
     fold (\<lambda>(k, v). AList.update k v) d
       [(''phone'', phone), (''message'', PStr clean_message), (''type'', message_type)]"

section \<open>Reading a batch\<close>

text \<open>
  For one entry of the request list: the phone it names, whether the first loop of
  \<open>send_multiple_sms\<close> makes a task of it, the key it is stored under otherwise, and what
  its task, run in the world \<open>w\<close>, stores and does. The writes of a whole list, in the
  order the loops make them: \<open>invalid_writes\<close> by the first loop, \<open>valid_writes\<close> by the
  second.
\<close>

definition entry_phone :: "(string \<times> pyval) list \<Rightarrow> pyval" where
  "entry_phone r = dict_get r ''phone'' PNone"

definition entry_valid :: "(string \<times> pyval) list \<Rightarrow> bool" where
  "entry_valid r = (truthy (entry_phone r) \<and> truthy (dict_get r ''message'' PNone))"

definition entry_key :: "(string \<times> pyval) list \<Rightarrow> pyval" where
  "entry_key r = (if truthy (entry_phone r) then entry_phone r else PStr ''invalid'')"

definition entry_send :: "config \<Rightarrow> world \<Rightarrow> (string \<times> pyval) list \<Rightarrow> (error + bool) \<times> event list" where
  "entry_send cfg w r =
     send_custom_sms cfg w (entry_phone r) (dict_get r ''message'' PNone)
       (dict_get r ''type'' (PStr ''notification'')) (dict_get r ''additional_data'' PNone)"

definition entry_outcome :: "config \<Rightarrow> world \<Rightarrow> (string \<times> pyval) list \<Rightarrow> bool" where
  "entry_outcome cfg w r = (case fst (entry_send cfg w r) of Inl e \<Rightarrow> False | Inr b \<Rightarrow> b)"

fun invalid_writes :: "(string \<times> pyval) list list \<Rightarrow> (pyval \<times> bool) list" where
  "invalid_writes [] = []"
| "invalid_writes (r # rs) =
     (if entry_valid r then invalid_writes rs else (entry_key r, False) # invalid_writes rs)"

fun valid_writes :: "config \<Rightarrow> (nat \<Rightarrow> world) \<Rightarrow> nat \<Rightarrow> (string \<times> pyval) list list
    \<Rightarrow> (pyval \<times> bool) list" where
  "valid_writes cfg ws i [] = []"
| "valid_writes cfg ws i (r # rs) =
     (if entry_valid r
        then (entry_phone r, entry_outcome cfg (ws i) r) # valid_writes cfg ws (Suc i) rs
      else valid_writes cfg ws (Suc i) rs)"

fun valid_traces :: "config \<Rightarrow> (nat \<Rightarrow> world) \<Rightarrow> nat \<Rightarrow> (string \<times> pyval) list list
    \<Rightarrow> event list list" where
  "valid_traces cfg ws i [] = []"
| "valid_traces cfg ws i (r # rs) =
     (if entry_valid r then snd (entry_send cfg (ws i) r) # valid_traces cfg ws (Suc i) rs
      else valid_traces cfg ws (Suc i) rs)"

definition store :: "(pyval \<times> bool) list \<Rightarrow> (pyval \<times> bool) list \<Rightarrow> (pyval \<times> bool) list" where
  "store writes results = fold (\<lambda>(k, v). AList.update k v) writes results"

fun tasks_of :: "nat \<Rightarrow> (string \<times> pyval) list list \<Rightarrow> task list" where
  "tasks_of i [] = []"
| "tasks_of i (r # rs) =
     (if entry_valid r
        then (entry_phone r, i, dict_get r ''message'' PNone,
              dict_get r ''type'' (PStr ''notification''),
              dict_get r ''additional_data'' PNone) # tasks_of (Suc i) rs
      else tasks_of (Suc i) rs)"

section \<open>Amounts\<close>



















section \<open>Sample configurations and inputs\<close>

definition four_hundred_spaces :: string where
  "four_hundred_spaces = replicate 400 CHR '' ''"

definition four_hundred_letters :: string where
  "four_hundred_letters = replicate 400 CHR ''a''"

definition gateway_cfg :: config where
  "gateway_cfg = \<lparr>SAVING_API_URL = Some ''https://api.geezsms.com/api/v1/sms/send'',
                   SMS_API_KEY = Some ''secret'', SMS_RETRY_ATTEMPTS = 3\<rparr>"

definition generic_cfg :: config where
  "generic_cfg = \<lparr>SAVING_API_URL = Some ''https://saving.example/api'',
                   SMS_API_KEY = None, SMS_RETRY_ATTEMPTS = 3\<rparr>"

definition server_error :: response where
  "server_error = \<lparr>status_code = 500, body_text = '''', json_parses = False\<rparr>"

definition ok_plain_text :: response where
  "ok_plain_text = \<lparr>status_code = 200, body_text = ''OK'', json_parses = False\<rparr>"

definition ok_json :: response where
  "ok_json = \<lparr>status_code = 200, body_text = ''{}'', json_parses = True\<rparr>"

definition third_attempt_plain_200 :: world where
  "third_attempt_plain_200 =
     \<lparr>transport = (\<lambda>k. if k < 2 then Returned (Some server_error)
                         else Returned (Some ok_plain_text)),
      timestamp = ''20260101120000000'', random_suffix = ''0a1b2c3d''\<rparr>"

definition always_ok :: world where
  "always_ok = \<lparr>transport = (\<lambda>k. Returned (Some ok_json)),
                 timestamp = ''20260101120000000'', random_suffix = ''0a1b2c3d''\<rparr>"

definition always_failing :: world where
  "always_failing = \<lparr>transport = (\<lambda>k. Raised),
                      timestamp = ''20260101120000000'', random_suffix = ''0a1b2c3d''\<rparr>"

definition all_ok :: "nat \<Rightarrow> world" where
  "all_ok i = always_ok"

definition second_fails :: "nat \<Rightarrow> world" where
  "second_fails i = (if i = 1 then always_failing else always_ok)"

definition colliding_batch :: "(string \<times> pyval) list list" where
  "colliding_batch =
     [[(''phone'', PStr ''0911223344'')],
      [(''phone'', PStr ''0911223344''), (''message'', PStr ''hi'')]]"

definition mixed_batch :: "(string \<times> pyval) list list" where
  "mixed_batch =
     [[(''phone'', PStr ''0911223344''), (''message'', PStr ''a'')],
      [(''phone'', PStr ''0922334455''), (''message'', PStr ''b'')],
      [(''phone'', PStr ''0933445566''), (''message'', PStr ''c''),
       (''additional_data'', PInt 5)],
      [(''phone'', PStr ''0944556677'')]]"


section \<open>The sanitizer\<close>

lemma strip_trimmed: "trimmed (strip s)"
proof -
  let ?a = "dropWhile isspace s"
  let ?b = "dropWhile isspace (rev ?a)"
  show ?thesis
  proof (cases "?b = []")
    case True
    then show ?thesis by (simp add: trimmed_def strip_def)
  next
    case False
    then have l: "\<not> isspace (hd ?b)" by (metis hd_dropWhile)
    have "last (rev ?b) = hd ?b" using False by (simp add: last_rev)
    then have last_ok: "\<not> isspace (last (rev ?b))" using l by simp
    from False have an: "?a \<noteq> []" by (cases "dropWhile isspace s = []") simp_all
    then have ha: "\<not> isspace (hd ?a)" by (metis hd_dropWhile)
    obtain pre where pre: "rev ?a = pre @ ?b"
      by (metis takeWhile_dropWhile_id)
    then have "?a = rev ?b @ rev pre" by (metis rev_append rev_rev_ident)
    then have "hd (rev ?b) = hd ?a" using False by (metis hd_append2 rev_is_Nil_conv)
    then show ?thesis using ha last_ok False by (simp add: trimmed_def strip_def)
  qed
qed

lemma strip_id: "trimmed s \<Longrightarrow> strip s = s"
proof (cases s)
  case Nil then show ?thesis by (simp add: strip_def)
next
  case (Cons a t)
  assume "trimmed s"
  then have h: "\<not> isspace (hd s)" and l: "\<not> isspace (last s)" using Cons by (auto simp: trimmed_def)
  have 1: "dropWhile isspace s = s" using h Cons by simp
  obtain ys y where ys: "s = ys @ [y]" using Cons by (metis rev_exhaust list.distinct(1))
  have 2: "dropWhile isspace (rev s) = rev s" using l ys by simp
  show ?thesis by (simp add: strip_def 1 2)
qed

lemma re_sub_ws_Nil_iff [simp]: "re_sub_ws s = [] \<longleftrightarrow> s = []"
  by (cases s) auto

lemma hd_re_sub_ws: "s \<noteq> [] \<Longrightarrow> \<not> isspace (hd s) \<Longrightarrow> hd (re_sub_ws s) = hd s"
  by (cases s) auto

lemma isspace_hd_re_sub_ws: "s \<noteq> [] \<Longrightarrow> isspace (hd (re_sub_ws s)) = isspace (hd s)"
  by (cases s) (auto simp: isspace_def)

lemma last_re_sub_ws: "s \<noteq> [] \<Longrightarrow> \<not> isspace (last s) \<Longrightarrow> last (re_sub_ws s) = last s"
proof (induction s rule: re_sub_ws.induct)
  case 1 then show ?case by simp
next
  case (2 c cs)
  show ?case
  proof (cases "isspace c")
    case True
    with "2.prems" have csn: "cs \<noteq> []" by auto
    let ?d = "dropWhile isspace cs"
    have dn: "?d \<noteq> []" using "2.prems" csn
      by (metis dropWhile_eq_Nil_conv last.simps last_in_set)
    have dl: "last ?d = last cs"
      using dn by (metis takeWhile_dropWhile_id last_appendR)
    have a: "last (re_sub_ws ?d) = last ?d" using "2.IH"(1)[OF True dn] dl "2.prems" csn by simp
    have b: "re_sub_ws ?d \<noteq> []" using dn by simp
    have "re_sub_ws (c # cs) = CHR '' '' # re_sub_ws ?d" using True by simp
    then have "last (re_sub_ws (c # cs)) = last (re_sub_ws ?d)" using b by (metis last_ConsR)
    also have "\<dots> = last (c # cs)" using a dl csn by (metis last_ConsR)
    finally show ?thesis .
  next
    case False
    then show ?thesis using 2 by (cases cs) auto
  qed
qed

lemma trimmed_re_sub_ws: "trimmed s \<Longrightarrow> trimmed (re_sub_ws s)"
  by (auto simp: trimmed_def hd_re_sub_ws last_re_sub_ws)

lemma single_spaced_re_sub_ws: "single_spaced (re_sub_ws s)"
proof (induction s rule: re_sub_ws.induct)
  case 1 show ?case by simp
next
  case (2 c cs)
  show ?case
  proof (cases "isspace c")
    case True
    have "dropWhile isspace cs = [] \<or> \<not> isspace (hd (dropWhile isspace cs))"
      by (metis hd_dropWhile)
    then have "re_sub_ws (dropWhile isspace cs) = [] \<or> \<not> isspace (hd (re_sub_ws (dropWhile isspace cs)))"
      by (cases "dropWhile isspace cs = []") (simp_all add: isspace_hd_re_sub_ws)
    then show ?thesis using True 2 by auto
  next
    case False
    then show ?thesis using 2 by simp
  qed
qed

lemma single_spaced_fix: "single_spaced s \<Longrightarrow> re_sub_ws s = s"
proof (induction s)
  case Nil show ?case by simp
next
  case (Cons c cs)
  then show ?case by (cases cs) auto
qed

lemma single_spaced_take: "single_spaced s \<Longrightarrow> single_spaced (take n s)"
proof (induction s arbitrary: n)
  case Nil show ?case by simp
next
  case (Cons c cs)
  show ?case
  proof (cases n)
    case 0 then show ?thesis by simp
  next
    case (Suc m)
    have "take m cs = [] \<or> hd (take m cs) = hd cs" by (cases m; cases cs) auto
    then show ?thesis using Cons Suc by auto
  qed
qed

lemma single_spaced_append:
  "single_spaced s \<Longrightarrow> single_spaced t \<Longrightarrow> t \<noteq> [] \<Longrightarrow> \<not> isspace (hd t) \<Longrightarrow> single_spaced (s @ t)"
  by (induction s) (auto simp: hd_append)

lemma single_spaced_no_ctl:
  "single_spaced s \<Longrightarrow> c \<in> set s \<Longrightarrow> isspace c \<Longrightarrow> c = CHR '' ''"
  by (induction s) auto

lemma replace_absent: "old \<notin> set s \<Longrightarrow> replace old new s = s"
  by (induction s) (auto simp: replace_def)

lemma single_spaced_replace:
  assumes "single_spaced s"
  shows "replace (CHR 0x09) '' '' (replace (CHR 0x0D) '' '' (replace (CHR 0x0A) '' '' s)) = s"
proof -
  have sp: "isspace (CHR 0x0A)" "isspace (CHR 0x0D)" "isspace (CHR 0x09)"
    by (simp_all add: isspace_def)
  have "CHR 0x0A \<notin> set s" "CHR 0x0D \<notin> set s" "CHR 0x09 \<notin> set s"
    using single_spaced_no_ctl[OF assms _ sp(1)] single_spaced_no_ctl[OF assms _ sp(2)]
      single_spaced_no_ctl[OF assms _ sp(3)] by auto
  then show ?thesis by (simp add: replace_absent)
qed

lemma validate_message_normal_id: "normal s \<Longrightarrow> validate_message (PStr s) = s"
  by (cases "s = []")
     (simp_all add: validate_message_def normal_def strip_id single_spaced_fix single_spaced_replace Let_def)

lemma validate_message_long:
  assumes "300 < length (re_sub_ws (strip x))"
  shows "validate_message (PStr x) = take 297 (re_sub_ws (strip x)) @ ''...''"
proof -
  let ?m = "re_sub_ws (strip x)"
  have xn: "x \<noteq> []" using assms by (auto simp: strip_def)
  have "single_spaced (take 297 ?m @ ''...'')"
    by (rule single_spaced_append) (simp_all add: single_spaced_take single_spaced_re_sub_ws isspace_def)
  then show ?thesis using xn assms
    by (simp add: validate_message_def Let_def single_spaced_replace)
qed

lemma validate_message_short:
  assumes "\<not> 300 < length (re_sub_ws (strip x))"
  shows "validate_message (PStr x) = re_sub_ws (strip x)"
proof (cases "x = []")
  case True then show ?thesis by (simp add: validate_message_def strip_def)
next
  case False
  then show ?thesis using assms
    by (simp add: validate_message_def Let_def single_spaced_replace single_spaced_re_sub_ws)
qed

lemma normal_validate_message: "normal (validate_message v)"
proof (cases v)
  case (PStr x)
  let ?m = "re_sub_ws (strip x)"
  have tm: "trimmed ?m" by (simp add: trimmed_re_sub_ws strip_trimmed)
  show ?thesis
  proof (cases "300 < length ?m")
    case True
    then have mn: "?m \<noteq> []" by auto
    have e: "validate_message (PStr x) = take 297 ?m @ ''...''" by (rule validate_message_long[OF True])
    have ss: "single_spaced (take 297 ?m @ ''...'')"
      by (rule single_spaced_append) (simp_all add: single_spaced_take single_spaced_re_sub_ws isspace_def)
    have "hd (take 297 ?m @ ''...'') = hd ?m" using True mn by (cases ?m) auto
    moreover have "\<not> isspace (hd ?m)" using tm mn by (simp add: trimmed_def)
    ultimately have "trimmed (take 297 ?m @ ''...'')" by (simp add: trimmed_def isspace_def)
    moreover have "length (take 297 ?m @ ''...'') = 300" using True by simp
    ultimately show ?thesis using ss e PStr by (simp add: normal_def)
  next
    case False
    then show ?thesis using PStr tm
      by (simp add: validate_message_short normal_def single_spaced_re_sub_ws)
  qed
qed (simp_all add: validate_message_def normal_def trimmed_def)

lemma no_space_re_sub_ws: "\<forall>c\<in>set x. \<not> isspace c \<Longrightarrow> re_sub_ws x = x"
  by (induction x) auto

lemma no_space_strip: "\<forall>c\<in>set x. \<not> isspace c \<Longrightarrow> strip x = x"
  by (rule strip_id) (cases x, auto simp: trimmed_def)

text \<open>
  C6. \<open>sanitizeMessage\<close> is idempotent: sanitizing a sanitized message returns it
  unchanged, for every input string.
\<close>

theorem validate_message_idempotent:
  "validate_message (PStr (validate_message (PStr x))) = validate_message (PStr x)"
  by (rule validate_message_normal_id) (rule normal_validate_message)

text \<open>
  C7, as stated, fails: a 400-character input made of spaces is trimmed to the empty
  string before its length is looked at, and the result is empty.
\<close>

theorem validate_message_400_spaces:
  "length four_hundred_spaces = 400 \<and> validate_message (PStr four_hundred_spaces) = []"
  by (simp add: four_hundred_spaces_def validate_message_def strip_def isspace_def replace_def)

text \<open>
  C7, amended. The length test is made on the trimmed, whitespace-collapsed message: when
  that form has more than 300 characters, the result is its first 297 characters followed
  by \<open>...\<close>, 300 characters in all. In particular a 400-character input without
  whitespace yields its own first 297 characters followed by \<open>...\<close>.
\<close>

theorem validate_message_truncates:
  "(300 < length (re_sub_ws (strip x)) \<longrightarrow>
      validate_message (PStr x) = take 297 (re_sub_ws (strip x)) @ ''...''
      \<and> length (validate_message (PStr x)) = 300)
   \<and> (length x = 400 \<and> (\<forall>c\<in>set x. \<not> isspace c) \<longrightarrow>
      validate_message (PStr x) = take 297 x @ ''...''
      \<and> length (validate_message (PStr x)) = 300)"
proof (intro conjI impI)
  assume a: "300 < length (re_sub_ws (strip x))"
  show "validate_message (PStr x) = take 297 (re_sub_ws (strip x)) @ ''...''"
    by (rule validate_message_long[OF a])
  then show "length (validate_message (PStr x)) = 300" using a by simp
next
  assume b: "length x = 400 \<and> (\<forall>c\<in>set x. \<not> isspace c)"
  then have e: "re_sub_ws (strip x) = x" by (simp add: no_space_strip no_space_re_sub_ws)
  then have a: "300 < length (re_sub_ws (strip x))" using b by simp
  show "validate_message (PStr x) = take 297 x @ ''...''"
    using validate_message_long[OF a] e by simp
  then show "length (validate_message (PStr x)) = 300" using b by simp
qed

theorem validate_message_truncates_witness:
  "length four_hundred_letters = 400
   \<and> 300 < length (re_sub_ws (strip four_hundred_letters))
   \<and> validate_message (PStr four_hundred_letters) = take 297 four_hundred_letters @ ''...''
   \<and> length (validate_message (PStr four_hundred_letters)) = 300"
proof -
  have n: "\<forall>c\<in>set four_hundred_letters. \<not> isspace c"
    by (simp add: four_hundred_letters_def isspace_def)
  have l: "length four_hundred_letters = 400" by (simp add: four_hundred_letters_def)
  have e: "re_sub_ws (strip four_hundred_letters) = four_hundred_letters"
    using n by (simp add: no_space_strip no_space_re_sub_ws)
  show ?thesis
    using validate_message_truncates[of four_hundred_letters] n l e by simp
qed

section \<open>The gateway phone normalizer\<close>








section \<open>The delivery engine\<close>

lemma upt3: "[0..<3] = [0, 1, 2]"
  by (simp add: upt_rec)

lemmas sample_defs = gateway_cfg_def generic_cfg_def ok_json_def always_ok_def

lemmas str_defs = strip_def isspace_def replace_def startswith_def isdigit_def isdigit_char_def


lemma posts_send_sms_loop:
  "as \<noteq> [] \<Longrightarrow> \<exists>rest. posts (snd (send_sms_loop cfg w u d as)) = (u, d) # rest"
  by (cases as) (auto split: option.splits prod.splits)

lemma posts_append: "posts (xs @ ys) = posts xs @ posts ys"
  by (induction xs rule: posts.induct) auto

lemma sleeps_append: "sleeps (xs @ ys) = sleeps xs @ sleeps ys"
  by (induction xs rule: sleeps.induct) auto

lemma posts_backoff: "posts (backoff cfg a) = []"
  by (simp add: backoff_def)

lemma sms_attempt_Log: "sms_attempt r = Some e \<Longrightarrow> \<exists>l m. e = Log l m"
  by (auto simp: sms_attempt_def split: attempt_result.splits option.splits if_splits)

lemma geezsms_attempt_Log: "geezsms_attempt r = Some e \<Longrightarrow> \<exists>l m. e = Log l m"
  by (auto simp: geezsms_attempt_def split: attempt_result.splits option.splits if_splits)

lemma posts_send_sms_loop_subset:
  "set (posts (snd (send_sms_loop cfg w u d as))) \<subseteq> {(u, d)}"
proof (induction as)
  case Nil show ?case by simp
next
  case (Cons a as)
  show ?case
  proof (cases "sms_attempt (transport w a)")
    case None then show ?thesis by simp
  next
    case (Some e)
    then obtain l m where e: "e = Log l m" using sms_attempt_Log by blast
    obtain ok evs where r: "send_sms_loop cfg w u d as = (ok, evs)"
      by (cases "send_sms_loop cfg w u d as")
    show ?thesis using Cons Some e r by (simp add: posts_append posts_backoff)
  qed
qed


lemma posts_send_sms:
  "set (posts (snd (send_sms cfg w reference payload phone)))
     \<subseteq> {(Some (the (SAVING_API_URL cfg) @ ''/send_sms''),
          PDict [(''reference'', PStr reference), (''payload'', PDict payload)])}"
proof -
  let ?u = "Some (the (SAVING_API_URL cfg) @ ''/send_sms'')"
  let ?d = "PDict [(''reference'', PStr reference), (''payload'', PDict payload)]"
  obtain ok evs where r: "send_sms_loop cfg w ?u ?d [0 ..< SMS_RETRY_ATTEMPTS cfg] = (ok, evs)"
    by (cases "send_sms_loop cfg w ?u ?d [0 ..< SMS_RETRY_ATTEMPTS cfg]")
  have "set (posts evs) \<subseteq> {(?u, ?d)}"
    using posts_send_sms_loop_subset[of cfg w ?u ?d "[0 ..< SMS_RETRY_ATTEMPTS cfg]"] r by simp
  then show ?thesis using r by (simp add: send_sms_def Let_def)
qed




text \<open>
  The retry loops with three attempts. When every attempt fails, either loop posts three
  times, sleeps 1 and 2 between the attempts and returns false. When the first two attempts
  fail and the third is answered with status 200, \<open>send_sms\<close> returns true;
  \<open>_send_geezsms\<close> does so when the body of that answer is empty or is JSON.
\<close>

lemma sleeps_backoff_3:
  "SMS_RETRY_ATTEMPTS cfg = 3 \<Longrightarrow>
   sleeps (backoff cfg 0) = [1] \<and> sleeps (backoff cfg 1) = [2] \<and> sleeps (backoff cfg 2) = []"
  by (simp add: backoff_def)

lemma send_sms_loop_all_fail:
  "\<forall>k\<in>set as. sms_attempt (transport w k) \<noteq> None \<Longrightarrow>
   fst (send_sms_loop cfg w u d as) = False
   \<and> length (posts (snd (send_sms_loop cfg w u d as))) = length as
   \<and> sleeps (snd (send_sms_loop cfg w u d as)) = concat (map (\<lambda>k. sleeps (backoff cfg k)) as)"
proof (induction as)
  case Nil show ?case by simp
next
  case (Cons a as)
  obtain e where e: "sms_attempt (transport w a) = Some e" using Cons.prems by auto
  then obtain l m where lm: "e = Log l m" using sms_attempt_Log by blast
  obtain ok evs where r: "send_sms_loop cfg w u d as = (ok, evs)"
    by (cases "send_sms_loop cfg w u d as")
  show ?case using Cons e lm r by (simp add: posts_append sleeps_append posts_backoff)
qed

lemma send_geezsms_loop_all_fail:
  "\<forall>k\<in>set as. geezsms_attempt (transport w k) \<noteq> None \<Longrightarrow>
   fst (send_geezsms_loop cfg w d as) = False
   \<and> length (posts (snd (send_geezsms_loop cfg w d as))) = length as
   \<and> sleeps (snd (send_geezsms_loop cfg w d as)) = concat (map (\<lambda>k. sleeps (backoff cfg k)) as)"
proof (induction as)
  case Nil show ?case by simp
next
  case (Cons a as)
  obtain e where e: "geezsms_attempt (transport w a) = Some e" using Cons.prems by auto
  then obtain l m where lm: "e = Log l m" using geezsms_attempt_Log by blast
  obtain ok evs where r: "send_geezsms_loop cfg w d as = (ok, evs)"
    by (cases "send_geezsms_loop cfg w d as")
  show ?case using Cons e lm r by (simp add: posts_append sleeps_append posts_backoff)
qed

lemma send_sms_all_attempts_fail:
  assumes "configured (SAVING_API_URL cfg)" "SMS_RETRY_ATTEMPTS cfg = 3"
    "\<not> (truthy phone \<and> \<not> validate_phone phone)"
    "\<forall>k<3. sms_attempt (transport w k) \<noteq> None"
  shows "fst (send_sms cfg w reference payload phone) = False
    \<and> length (posts (snd (send_sms cfg w reference payload phone))) = 3
    \<and> sleeps (snd (send_sms cfg w reference payload phone)) = [1, 2]"
proof -
  let ?u = "Some (the (SAVING_API_URL cfg) @ ''/send_sms'')"
  let ?d = "PDict [(''reference'', PStr reference), (''payload'', PDict payload)]"
  have a: "\<forall>k\<in>set [0, 1, 2]. sms_attempt (transport w k) \<noteq> None" using assms(4) by simp
  obtain ok evs where r: "send_sms_loop cfg w ?u ?d [0, 1, 2] = (ok, evs)"
    by (cases "send_sms_loop cfg w ?u ?d [0, 1, 2]")
  have "ok = False \<and> length (posts evs) = 3 \<and> sleeps evs = [1, 2]"
    using send_sms_loop_all_fail[OF a, of cfg ?u ?d] r sleeps_backoff_3[OF assms(2)] by simp
  then show ?thesis using assms(1,2,3) r by (simp add: send_sms_def Let_def upt3)
qed

lemma send_sms_third_attempt_succeeds:
  assumes "configured (SAVING_API_URL cfg)" "SMS_RETRY_ATTEMPTS cfg = 3"
    "\<not> (truthy phone \<and> \<not> validate_phone phone)"
    "sms_attempt (transport w 0) \<noteq> None" "sms_attempt (transport w 1) \<noteq> None"
    "transport w 2 = Returned (Some resp)" "status_code resp = 200"
  shows "fst (send_sms cfg w reference payload phone) = True
    \<and> length (posts (snd (send_sms cfg w reference payload phone))) = 3
    \<and> sleeps (snd (send_sms cfg w reference payload phone)) = [1, 2]"
proof -
  obtain e0 where e0: "sms_attempt (transport w 0) = Some e0" using assms(4) by auto
  obtain e1 where e1: "sms_attempt (transport w 1) = Some e1" using assms(5) by auto
  obtain l0 m0 where l0: "e0 = Log l0 m0" using e0 sms_attempt_Log by blast
  obtain l1 m1 where l1: "e1 = Log l1 m1" using e1 sms_attempt_Log by blast
  have e2: "sms_attempt (transport w 2) = None" using assms(6,7) by (simp add: sms_attempt_def)
  show ?thesis
    using assms(1,2,3) e0 e1 e2 l0 l1
    by (simp add: send_sms_def Let_def upt3 backoff_def)
qed

lemma send_geezsms_all_attempts_fail:
  assumes "configured (SMS_API_KEY cfg)" "SMS_RETRY_ATTEMPTS cfg = 3"
    "normalize_ethiopian_phone p = Some n"
    "\<forall>k<3. geezsms_attempt (transport w k) \<noteq> None"
  shows "fst (send_geezsms cfg w (PStr p) message) = False
    \<and> length (posts (snd (send_geezsms cfg w (PStr p) message))) = 3
    \<and> sleeps (snd (send_geezsms cfg w (PStr p) message)) = [1, 2]"
proof -
  let ?d = "PDict [(''token'', PStr (the (SMS_API_KEY cfg))), (''phone'', PStr n),
                  (''msg'', PStr message)]"
  have a: "\<forall>k\<in>set [0, 1, 2]. geezsms_attempt (transport w k) \<noteq> None" using assms(4) by simp
  obtain ok evs where r: "send_geezsms_loop cfg w ?d [0, 1, 2] = (ok, evs)"
    by (cases "send_geezsms_loop cfg w ?d [0, 1, 2]")
  have "ok = False \<and> length (posts evs) = 3 \<and> sleeps evs = [1, 2]"
    using send_geezsms_loop_all_fail[OF a, of cfg ?d] r sleeps_backoff_3[OF assms(2)] by simp
  then show ?thesis using assms(1,2,3) r by (simp add: send_geezsms_def Let_def upt3)
qed

lemma send_geezsms_third_attempt_succeeds:
  assumes "configured (SMS_API_KEY cfg)" "SMS_RETRY_ATTEMPTS cfg = 3"
    "normalize_ethiopian_phone p = Some n"
    "geezsms_attempt (transport w 0) \<noteq> None" "geezsms_attempt (transport w 1) \<noteq> None"
    "transport w 2 = Returned (Some resp)" "status_code resp = 200"
    "body_text resp = [] \<or> json_parses resp"
  shows "fst (send_geezsms cfg w (PStr p) message) = True
    \<and> length (posts (snd (send_geezsms cfg w (PStr p) message))) = 3
    \<and> sleeps (snd (send_geezsms cfg w (PStr p) message)) = [1, 2]"
proof -
  obtain e0 where e0: "geezsms_attempt (transport w 0) = Some e0" using assms(4) by auto
  obtain e1 where e1: "geezsms_attempt (transport w 1) = Some e1" using assms(5) by auto
  obtain l0 m0 where l0: "e0 = Log l0 m0" using e0 geezsms_attempt_Log by blast
  obtain l1 m1 where l1: "e1 = Log l1 m1" using e1 geezsms_attempt_Log by blast
  have e2: "geezsms_attempt (transport w 2) = None"
    using assms(6,7,8) by (auto simp: geezsms_attempt_def)
  show ?thesis
    using assms(1,2,3) e0 e1 e2 l0 l1
    by (simp add: send_geezsms_def Let_def upt3 backoff_def)
qed

text \<open>
  C1 fails on the gateway path. The gateway answers the first two attempts with status
  500 and the third with status 200 and the body \<open>OK\<close>, which is not JSON:
  \<open>_send_geezsms\<close> posts three times and returns false, where \<open>send_sms\<close> returns true
  on the same answers.
\<close>

theorem send_geezsms_plain_200_fails:
  "transport third_attempt_plain_200 2 = Returned (Some ok_plain_text)
   \<and> status_code ok_plain_text = 200
   \<and> fst (send_geezsms gateway_cfg third_attempt_plain_200 (PStr ''0911223344'') ''hi'') = False
   \<and> length (posts (snd (send_geezsms gateway_cfg third_attempt_plain_200
        (PStr ''0911223344'') ''hi''))) = 3
   \<and> fst (send_sms gateway_cfg third_attempt_plain_200 ''REF'' [] PNone) = True"
  by (simp add: send_geezsms_def send_sms_def gateway_cfg_def server_error_def
        ok_plain_text_def third_attempt_plain_200_def configured_def
        normalize_ethiopian_phone_def str_defs upt3 geezsms_attempt_def sms_attempt_def
        backoff_def Let_def)

text \<open>
  C2 fails for \<open>send_notification_sms\<close>: with \<open>None\<close> as phone and an empty message
  the call raises \<open>TypeError\<close> instead of returning false.
\<close>

theorem send_notification_sms_raises:
  "send_notification_sms cfg w PNone (PStr '''') = (Inl TypeError, [])"
  by (simp add: send_notification_sms_def validate_message_def)

section \<open>Custom messages\<close>

lemma map_of_fold_update:
  "map_of (fold (\<lambda>(k, v). AList.update k v) d p) k
     = (case map_of (rev d) k of Some v \<Rightarrow> Some v | None \<Rightarrow> map_of p k)"
  by (induction d arbitrary: p) (auto simp: update_conv' map_add_def split: option.splits)

lemma send_custom_sms_generic:
  assumes "validate_phone phone" "validate_message message \<noteq> []"
    "\<not> (configured (SAVING_API_URL cfg) \<and> contains ''geezsms.com'' (the (SAVING_API_URL cfg)))"
    "d \<noteq> []"
  shows "snd (send_custom_sms cfg w phone message message_type (PDict d))
     = snd (send_sms cfg w (generate_reference w ''CUSTOM'')
              (custom_payload phone (validate_message message) message_type d) phone)"
  using assms
  by (auto simp: send_custom_sms_def custom_payload_def Let_def dict_update_def
      split: prod.splits)

lemma send_sms_posts_nonempty:
  assumes "configured (SAVING_API_URL cfg)" "0 < SMS_RETRY_ATTEMPTS cfg"
    "\<not> (truthy phone \<and> \<not> validate_phone phone)"
  shows "posts (snd (send_sms cfg w reference payload phone)) \<noteq> []"
proof -
  let ?u = "Some (the (SAVING_API_URL cfg) @ ''/send_sms'')"
  let ?d = "PDict [(''reference'', PStr reference), (''payload'', PDict payload)]"
  have ne: "[0 ..< SMS_RETRY_ATTEMPTS cfg] \<noteq> []" using assms(2) by simp
  obtain ok evs where r: "send_sms_loop cfg w ?u ?d [0 ..< SMS_RETRY_ATTEMPTS cfg] = (ok, evs)"
    by (cases "send_sms_loop cfg w ?u ?d [0 ..< SMS_RETRY_ATTEMPTS cfg]")
  obtain rest where "posts evs = (?u, ?d) # rest"
    using posts_send_sms_loop[OF ne, of cfg w ?u ?d] r by auto
  then show ?thesis using assms r by (auto simp: send_sms_def Let_def)
qed

text \<open>
  C10. On the generic path of \<open>send_custom_sms\<close> with a non-empty dictionary \<open>d\<close> as
  \<open>additional_data\<close>, every request posted carries the payload built from the three
  fields and then updated with \<open>d\<close> (and a request is posted when the URL is configured
  and an attempt is allowed). In that payload every key of \<open>d\<close> has the value \<open>d\<close> gives
  it, also the keys \<open>phone\<close>, \<open>message\<close> and \<open>type\<close>; the other keys keep the built
  value. (\<open>map_of (rev d)\<close> reads the last binding of a key in \<open>d\<close>, the only one in
  a dictionary.)
\<close>

theorem send_custom_sms_additional_data_wins:
  assumes "validate_phone phone" and "validate_message message \<noteq> []"
    and "\<not> (configured (SAVING_API_URL cfg) \<and> contains ''geezsms.com'' (the (SAVING_API_URL cfg)))"
    and "d \<noteq> []"
  shows "set (posts (snd (send_custom_sms cfg w phone message message_type (PDict d))))
       \<subseteq> {(Some (the (SAVING_API_URL cfg) @ ''/send_sms''),
            PDict [(''reference'', PStr (generate_reference w ''CUSTOM'')),
                   (''payload'',
                    PDict (custom_payload phone (validate_message message) message_type d))])}
     \<and> (configured (SAVING_API_URL cfg) \<and> 0 < SMS_RETRY_ATTEMPTS cfg \<longrightarrow>
          posts (snd (send_custom_sms cfg w phone message message_type (PDict d))) \<noteq> [])
     \<and> (\<forall>k v. map_of (rev d) k = Some v \<longrightarrow>
          map_of (custom_payload phone (validate_message message) message_type d) k = Some v)
     \<and> (\<forall>k. map_of (rev d) k = None \<longrightarrow>
          map_of (custom_payload phone (validate_message message) message_type d) k
            = map_of [(''phone'', phone), (''message'', PStr (validate_message message)),
                      (''type'', message_type)] k)
     \<and> (\<forall>t. map_of (rev d) ''type'' = Some t \<longrightarrow>
          map_of (custom_payload phone (validate_message message) message_type d) ''type''
            = Some t)"
proof -
  let ?payload = "custom_payload phone (validate_message message) message_type d"
  note e = send_custom_sms_generic[OF assms, of w message_type]
  have 1: "set (posts (snd (send_custom_sms cfg w phone message message_type (PDict d))))
       \<subseteq> {(Some (the (SAVING_API_URL cfg) @ ''/send_sms''),
            PDict [(''reference'', PStr (generate_reference w ''CUSTOM'')),
                   (''payload'', PDict ?payload)])}"
    unfolding e by (rule posts_send_sms)
  have 2: "configured (SAVING_API_URL cfg) \<and> 0 < SMS_RETRY_ATTEMPTS cfg \<longrightarrow>
          posts (snd (send_custom_sms cfg w phone message message_type (PDict d))) \<noteq> []"
    unfolding e using send_sms_posts_nonempty[of cfg phone w] assms(1) by blast
  have 3: "\<forall>k v. map_of (rev d) k = Some v \<longrightarrow> map_of ?payload k = Some v"
    by (simp add: custom_payload_def map_of_fold_update)
  have 4: "\<forall>k. map_of (rev d) k = None \<longrightarrow>
          map_of ?payload k
            = map_of [(''phone'', phone), (''message'', PStr (validate_message message)),
                      (''type'', message_type)] k"
    by (simp add: custom_payload_def map_of_fold_update)
  show ?thesis using 1 2 3 4 by blast
qed

theorem send_custom_sms_additional_data_wins_witness:
  "validate_phone (PStr ''0911223344'') \<and> validate_message (PStr ''hello'') = ''hello''
   \<and> \<not> contains ''geezsms.com'' (the (SAVING_API_URL generic_cfg))
   \<and> posts (snd (send_custom_sms generic_cfg always_ok (PStr ''0911223344'') (PStr ''hello'')
        (PStr ''notification'') (PDict [(''type'', PStr ''promo'')])))
       = [(Some ''https://saving.example/api/send_sms'',
           PDict [(''reference'', PStr ''CUSTOM_20260101120000000_0a1b2c3d''),
                  (''payload'',
                   PDict [(''phone'', PStr ''0911223344''), (''message'', PStr ''hello''),
                          (''type'', PStr ''promo'')])])]
   \<and> map_of (custom_payload (PStr ''0911223344'') ''hello'' (PStr ''notification'')
        [(''type'', PStr ''promo'')]) ''type'' = Some (PStr ''promo'')"
proof -
  have p: "validate_phone (PStr ''0911223344'')"
    by (simp add: validate_phone_def str_defs)
  have m: "validate_message (PStr ''hello'') = ''hello''"
    by (simp add: validate_message_def str_defs)
  have c: "\<not> contains ''geezsms.com'' (the (SAVING_API_URL generic_cfg))"
    by (simp add: generic_cfg_def startswith_def)
  have s: "posts (snd (send_custom_sms generic_cfg always_ok (PStr ''0911223344'')
        (PStr ''hello'') (PStr ''notification'') (PDict [(''type'', PStr ''promo'')])))
       = [(Some ''https://saving.example/api/send_sms'',
           PDict [(''reference'', PStr ''CUSTOM_20260101120000000_0a1b2c3d''),
                  (''payload'',
                   PDict [(''phone'', PStr ''0911223344''), (''message'', PStr ''hello''),
                          (''type'', PStr ''promo'')])])]"
    using c
    by (simp add: send_custom_sms_def p m dict_update_def send_sms_def generate_reference_def
          sample_defs configured_def upt3 sms_attempt_def Let_def)
  show ?thesis
    using send_custom_sms_additional_data_wins[of "PStr ''0911223344''" "PStr ''hello''"
        generic_cfg "[(''type'', PStr ''promo'')]" always_ok "PStr ''notification''"] p m c s
    by (simp add: custom_payload_def)
qed

section \<open>The batch operation\<close>

lemma collect_requests_eq:
  "\<forall>r\<in>set reqs. hashable (entry_phone r) \<Longrightarrow>
   collect_requests i reqs results tasks
     = Inr (store (invalid_writes reqs) results, tasks @ tasks_of i reqs)"
proof (induction reqs arbitrary: i results tasks)
  case Nil
  show ?case by (simp add: store_def)
next
  case (Cons r rs)
  have h: "hashable (entry_key r)" using Cons.prems by (simp add: entry_key_def)
  show ?case
  proof (cases "entry_valid r")
    case True
    then show ?thesis using Cons
      by (simp add: entry_valid_def entry_phone_def Let_def)
  next
    case False
    then show ?thesis using Cons h
      by (simp add: entry_valid_def entry_phone_def entry_key_def Let_def setitem_def store_def)
  qed
qed

lemma store_results_eq:
  "\<forall>t\<in>set ts. hashable (fst t) \<Longrightarrow> length outs = length ts \<Longrightarrow>
   store_results (zip ts outs) results
     = Inr (store (zip (map fst ts)
              (map (\<lambda>result. case result of Inl e \<Rightarrow> False | Inr b \<Rightarrow> b) outs)) results)"
proof (induction ts arbitrary: outs results)
  case Nil
  then show ?case by (simp add: store_def)
next
  case (Cons t ts)
  then obtain out outs' where o: "outs = out # outs'" by (cases outs) auto
  show ?case using Cons o by (simp add: setitem_def store_def)
qed

lemma tasks_of_hashable:
  "\<forall>r\<in>set reqs. hashable (entry_phone r) \<Longrightarrow> \<forall>t\<in>set (tasks_of i reqs). hashable (fst t)"
  by (induction reqs arbitrary: i) auto

lemma tasks_of_writes:
  "zip (map fst (tasks_of i reqs))
     (map (\<lambda>result. case result of Inl e \<Rightarrow> False | Inr b \<Rightarrow> b)
        (map fst (map (run_task cfg ws) (tasks_of i reqs))))
   = valid_writes cfg ws i reqs"
  by (induction reqs arbitrary: i)
     (auto simp: run_task_def entry_outcome_def entry_send_def)

lemma tasks_of_traces:
  "map snd (map (run_task cfg ws) (tasks_of i reqs)) = valid_traces cfg ws i reqs"
  by (induction reqs arbitrary: i) (auto simp: run_task_def entry_send_def)

lemma send_multiple_sms_eq:
  assumes "\<forall>r\<in>set reqs. hashable (entry_phone r)"
  shows "send_multiple_sms cfg ws reqs
     = (Inr (store (valid_writes cfg ws 0 reqs) (store (invalid_writes reqs) [])),
        valid_traces cfg ws 0 reqs)"
proof -
  have c: "collect_requests 0 reqs [] [] = Inr (store (invalid_writes reqs) [], tasks_of 0 reqs)"
    using collect_requests_eq[OF assms, of 0 "[]" "[]"] by simp
  have s: "store_results (zip (tasks_of 0 reqs) (map fst (map (run_task cfg ws) (tasks_of 0 reqs))))
        (store (invalid_writes reqs) [])
      = Inr (store (valid_writes cfg ws 0 reqs) (store (invalid_writes reqs) []))"
    unfolding tasks_of_writes[of 0 reqs cfg ws, symmetric]
    by (rule store_results_eq[OF tasks_of_hashable[OF assms]]) simp
  show ?thesis
    unfolding send_multiple_sms_def c using s
    by (simp add: Let_def tasks_of_traces del: map_map)
qed

lemma map_of_store:
  "map_of (store writes results) k
     = (case map_of (rev writes) k of Some v \<Rightarrow> Some v | None \<Rightarrow> map_of results k)"
  unfolding store_def by (rule map_of_fold_update)

lemma valid_writes_append:
  "valid_writes cfg ws i (a @ b)
     = valid_writes cfg ws i a @ valid_writes cfg ws (i + length a) b"
  by (induction a arbitrary: i) auto

lemma valid_writes_keys:
  "fst ` set (valid_writes cfg ws i reqs) = entry_phone ` {r \<in> set reqs. entry_valid r}"
  by (induction reqs arbitrary: i) auto

lemma invalid_writes_keys:
  "fst ` set (invalid_writes reqs) = entry_key ` {r \<in> set reqs. \<not> entry_valid r}"
  by (induction reqs) auto

lemma invalid_writes_False: "(k, v) \<in> set (invalid_writes reqs) \<Longrightarrow> v = False"
  by (induction reqs) (auto split: if_splits)

lemma map_of_invalid_writes:
  "map_of (rev (invalid_writes reqs)) k
     = (if k \<in> entry_key ` {r \<in> set reqs. \<not> entry_valid r} then Some False else None)"
proof (cases "map_of (rev (invalid_writes reqs)) k")
  case None
  then have "k \<notin> fst ` set (rev (invalid_writes reqs))" by (simp add: map_of_eq_None_iff)
  then show ?thesis using None invalid_writes_keys[of reqs] by simp
next
  case (Some v)
  then have m: "(k, v) \<in> set (invalid_writes reqs)" using map_of_SomeD by fastforce
  then have "v = False" by (rule invalid_writes_False)
  moreover have "k \<in> fst ` set (invalid_writes reqs)" using m by force
  ultimately show ?thesis using Some invalid_writes_keys[of reqs] by simp
qed

lemma map_of_rev_None: "map_of (rev xs) k = None \<longleftrightarrow> k \<notin> fst ` set xs"
  by (simp add: map_of_eq_None_iff)

lemma entry_key_valid: "entry_valid r \<Longrightarrow> entry_key r = entry_phone r"
  by (simp add: entry_valid_def entry_key_def)

lemma length_valid_traces:
  "length (valid_traces cfg ws i reqs) = length (filter entry_valid reqs)"
  by (induction reqs arbitrary: i) auto

text \<open>
  C4, as stated, fails on a key collision: an entry with a phone and no message, followed
  by a valid entry for the same phone whose delivery succeeds. The map holds true for that
  phone, so the rejected entry has no false result under its key.
\<close>

theorem send_multiple_sms_collision:
  "\<not> entry_valid (colliding_batch ! 0)
   \<and> entry_key (colliding_batch ! 0) = PStr ''0911223344''
   \<and> fst (send_multiple_sms generic_cfg all_ok colliding_batch)
       = Inr [(PStr ''0911223344'', True)]"
  by (simp add: colliding_batch_def entry_valid_def entry_key_def entry_phone_def dict_get_def
        send_multiple_sms_def setitem_def run_task_def all_ok_def Let_def
        send_custom_sms_def validate_phone_def validate_message_def str_defs
        send_sms_def generate_reference_def sample_defs configured_def upt3 sms_attempt_def)

text \<open>
  C4, amended. For a request list whose phones can be dictionary keys (none is itself a
  dictionary), \<open>send_multiple_sms\<close> returns a map, and runs one send for each valid entry
  and none for the others. The keys of the map are the keys of the entries: the phone, or
  \<open>invalid\<close> for an entry without a phone. An entry missing phone or message writes
  false under its key without a send; a valid entry writes under its phone the outcome of
  its own send, false when that send raised. The writes of the valid entries are made
  after those of the rejected ones, in list order, so on a key collision the last valid
  entry with that phone decides: a rejected entry has false under its key when no valid
  entry has that phone, and a valid entry has its own outcome under its phone when no
  later valid entry has the same phone.
\<close>

theorem send_multiple_sms_results:
  assumes "\<forall>r\<in>set reqs. hashable (entry_phone r)"
  shows "\<exists>results.
      fst (send_multiple_sms cfg ws reqs) = Inr results
    \<and> snd (send_multiple_sms cfg ws reqs) = valid_traces cfg ws 0 reqs
    \<and> length (snd (send_multiple_sms cfg ws reqs)) = length (filter entry_valid reqs)
    \<and> dom (map_of results) = entry_key ` set reqs
    \<and> (\<forall>r\<in>set reqs.
          \<not> entry_valid r \<and> (\<forall>r'\<in>set reqs. entry_valid r' \<longrightarrow> entry_phone r' \<noteq> entry_key r)
          \<longrightarrow> map_of results (entry_key r) = Some False)
    \<and> (\<forall>pre r post.
          reqs = pre @ r # post \<and> entry_valid r
          \<and> (\<forall>r'\<in>set post. entry_valid r' \<longrightarrow> entry_phone r' \<noteq> entry_phone r)
          \<longrightarrow> map_of results (entry_phone r) = Some (entry_outcome cfg (ws (length pre)) r))
    \<and> (\<forall>w r e. fst (entry_send cfg w r) = Inl e \<longrightarrow> entry_outcome cfg w r = False)"
proof -
  let ?vw = "valid_writes cfg ws 0 reqs"
  let ?iw = "invalid_writes reqs"
  let ?res = "store ?vw (store ?iw [])"
  note eq = send_multiple_sms_eq[OF assms, of cfg ws]
  have m: "\<And>k. map_of ?res k
      = (case map_of (rev ?vw) k of Some v \<Rightarrow> Some v | None \<Rightarrow> map_of (rev ?iw) k)"
    by (simp add: map_of_store split: option.splits)
  have 1: "fst (send_multiple_sms cfg ws reqs) = Inr ?res" by (simp add: eq)
  have 2: "snd (send_multiple_sms cfg ws reqs) = valid_traces cfg ws 0 reqs" by (simp add: eq)
  have 3: "length (snd (send_multiple_sms cfg ws reqs)) = length (filter entry_valid reqs)"
    by (simp add: eq length_valid_traces)
  have 4: "dom (map_of ?res) = entry_key ` set reqs"
  proof -
    have "dom (map_of ?res) = fst ` set ?vw \<union> fst ` set ?iw"
    proof (rule set_eqI)
      fix k
      show "k \<in> dom (map_of ?res) \<longleftrightarrow> k \<in> fst ` set ?vw \<union> fst ` set ?iw"
        using map_of_rev_None[of ?vw k] map_of_rev_None[of ?iw k]
        by (cases "map_of (rev ?vw) k"; cases "map_of (rev ?iw) k") (auto simp: m dom_def)
    qed
    also have "\<dots> = entry_phone ` {r \<in> set reqs. entry_valid r}
        \<union> entry_key ` {r \<in> set reqs. \<not> entry_valid r}"
      by (simp add: valid_writes_keys invalid_writes_keys)
    also have "\<dots> = entry_key ` set reqs"
      using entry_key_valid by force
    finally show ?thesis .
  qed
  have 5: "\<forall>r\<in>set reqs.
          \<not> entry_valid r \<and> (\<forall>r'\<in>set reqs. entry_valid r' \<longrightarrow> entry_phone r' \<noteq> entry_key r)
          \<longrightarrow> map_of ?res (entry_key r) = Some False"
  proof (intro ballI impI)
    fix r assume r: "r \<in> set reqs"
      and a: "\<not> entry_valid r \<and> (\<forall>r'\<in>set reqs. entry_valid r' \<longrightarrow> entry_phone r' \<noteq> entry_key r)"
    have "entry_key r \<notin> fst ` set ?vw" using a by (auto simp: valid_writes_keys)
    then have n: "map_of (rev ?vw) (entry_key r) = None" by (simp add: map_of_rev_None)
    have "map_of (rev ?iw) (entry_key r) = Some False"
      using r a by (auto simp: map_of_invalid_writes)
    then show "map_of ?res (entry_key r) = Some False" using n by (simp add: m)
  qed
  have 6: "\<forall>pre r post.
          reqs = pre @ r # post \<and> entry_valid r
          \<and> (\<forall>r'\<in>set post. entry_valid r' \<longrightarrow> entry_phone r' \<noteq> entry_phone r)
          \<longrightarrow> map_of ?res (entry_phone r) = Some (entry_outcome cfg (ws (length pre)) r)"
  proof (intro allI impI)
    fix pre r post
    assume a: "reqs = pre @ r # post \<and> entry_valid r
          \<and> (\<forall>r'\<in>set post. entry_valid r' \<longrightarrow> entry_phone r' \<noteq> entry_phone r)"
    let ?A = "valid_writes cfg ws 0 pre"
    let ?B = "valid_writes cfg ws (Suc (length pre)) post"
    let ?x = "(entry_phone r, entry_outcome cfg (ws (length pre)) r)"
    have vw: "?vw = ?A @ ?x # ?B" using a by (simp add: valid_writes_append)
    have "entry_phone r \<notin> fst ` set ?B" using a by (auto simp: valid_writes_keys)
    then have nb: "map_of (rev ?B) (entry_phone r) = None" by (simp add: map_of_rev_None)
    have "map_of (rev ?vw) (entry_phone r) = Some (entry_outcome cfg (ws (length pre)) r)"
      unfolding vw using nb by (simp add: map_add_def)
    then show "map_of ?res (entry_phone r) = Some (entry_outcome cfg (ws (length pre)) r)"
      by (simp add: m)
  qed
  have 7: "\<forall>w r e. fst (entry_send cfg w r) = Inl e \<longrightarrow> entry_outcome cfg w r = False"
    by (simp add: entry_outcome_def)
  show ?thesis using 1 2 3 4 5 6 7 by blast
qed

theorem send_multiple_sms_results_witness:
  "list_all (\<lambda>r. hashable (entry_phone r)) mixed_batch
   \<and> send_multiple_sms generic_cfg second_fails mixed_batch
     = (Inr [(PStr ''0944556677'', False), (PStr ''0911223344'', True),
             (PStr ''0922334455'', False), (PStr ''0933445566'', False)],
        valid_traces generic_cfg second_fails 0 mixed_batch)
   \<and> fst (entry_send generic_cfg (second_fails 2) (mixed_batch ! 2)) = Inl TypeError
   \<and> length (valid_traces generic_cfg second_fails 0 mixed_batch) = 3"
proof -
  have h: "\<forall>r\<in>set mixed_batch. hashable (entry_phone r)"
    by (simp add: mixed_batch_def entry_phone_def dict_get_def)
  have v: "validate_phone (PStr ''0911223344'')" "validate_phone (PStr ''0922334455'')"
    "validate_phone (PStr ''0933445566'')"
    by (simp_all add: validate_phone_def str_defs)
  have msg: "validate_message (PStr ''a'') = ''a''" "validate_message (PStr ''b'') = ''b''"
    "validate_message (PStr ''c'') = ''c''"
    by (simp_all add: validate_message_def str_defs)
  have c: "\<not> contains ''geezsms.com'' (the (SAVING_API_URL generic_cfg))"
    by (simp add: generic_cfg_def startswith_def)
  have r: "fst (send_multiple_sms generic_cfg second_fails mixed_batch)
     = Inr [(PStr ''0944556677'', False), (PStr ''0911223344'', True),
             (PStr ''0922334455'', False), (PStr ''0933445566'', False)]"
    using c
    by (simp add: mixed_batch_def dict_get_def send_multiple_sms_def setitem_def run_task_def
          second_fails_def Let_def send_custom_sms_def v msg dict_update_def
          send_sms_def generate_reference_def sample_defs always_failing_def configured_def
          upt3 sms_attempt_def backoff_def)
  have e: "fst (entry_send generic_cfg (second_fails 2) (mixed_batch ! 2)) = Inl TypeError"
    using c
    by (simp add: mixed_batch_def entry_send_def entry_phone_def dict_get_def
          send_custom_sms_def v msg dict_update_def)
  have l: "length (filter entry_valid mixed_batch) = 3"
    by (simp add: mixed_batch_def entry_valid_def entry_phone_def dict_get_def)
  show ?thesis
    using send_multiple_sms_results[OF h, of generic_cfg second_fails] h r e l
    by (auto simp: list_all_iff prod_eq_iff)
qed

section \<open>The amount formatter\<close>













section \<open>Provider routing\<close>




end
